theory Spec2Isabelle
  imports Complex_Main "HOL-Library.AList"
begin

section \<open>Data model of the recorder (src/components/RRWebRecorder.tsx)\<close>

text \<open>
  Values of TypeScript type \<open>any\<close> that the manager inspects (the \<open>sessionId\<close> field of a
  record read back from the store). Numbers there are modelled as integers.
\<close>

datatype jsval = JUndefined | JNull | JBool bool | JNum int | JStr string

text \<open>
  The payload of an rrweb event (\<open>data: any\<close>): a value as the structured clone of the
  store keeps it, which the manager never inspects. Finite numbers are rationals (every
  double is one); negative zero, NaN and the infinities are values of their own. A date is
  given by the text \<open>toISOString\<close> prints for it, an object by its own properties in
  enumeration order; \<open>DCyclic\<close> stands for an object that contains itself.
\<close>

datatype jsdata =
    DUndefined
  | DNull
  | DBool bool
  | DNum rat
  | DNegZero
  | DNaN
  | DInfinity
  | DNegInfinity
  | DStr string
  | DBigInt int
  | DDate string
  | DCyclic
  | DArr "jsdata list"
  | DObj "(string \<times> jsdata) list"

text \<open>A JSON document, by its syntax tree: white space and escapes carry no information.\<close>

datatype jsondoc =
    JsonNull
  | JsonBool bool
  | JsonNum rat
  | JsonStr string
  | JsonArr "jsondoc list"
  | JsonObj "(string \<times> jsondoc) list"

text \<open>\<open>interface RRWebEvent { type; data; timestamp; delay? }\<close>\<close>

record RRWebEvent =
  ev_type :: int
  ev_data :: jsdata
  ev_timestamp :: int
  ev_delay :: "int option"

text \<open>
  A record of the \<open>events\<close> object store: \<open>{ id, data, timestamp, sessionId }\<close>. The key
  path is \<open>id\<close>; the store assigns it. \<open>sessionId\<close> is read back untyped.
\<close>

record StoredRecord =
  rid :: nat
  data :: RRWebEvent
  timestamp :: int
  sessionId :: jsval

text \<open>
  The \<open>events\<close> object store as IndexedDB keeps it: the records in ascending key order, the
  key generator of \<open>autoIncrement\<close>, and the two secondary indices created by
  \<open>createIndex\<close>. An index entry pairs the index key with the primary key of its record;
  a record whose key-path value is not a valid key has no entry. Entries are kept in
  ascending primary-key order, which is how IndexedDB orders the entries of one index key.
\<close>

record ObjectStore =
  records :: "StoredRecord list"
  keyGenerator :: nat
  sessionIdIndex :: "(jsval \<times> nat) list"
  timestampIndex :: "(int \<times> nat) list"

text \<open>What the caller hands to \<open>store.add\<close>: a record without its key.\<close>

record NewRecord =
  new_data :: RRWebEvent
  new_timestamp :: int
  new_sessionId :: jsval

definition createObjectStore :: ObjectStore where
  "createObjectStore =
     \<lparr>records = [], keyGenerator = 1, sessionIdIndex = [], timestampIndex = []\<rparr>"

fun idb_valid_key :: "jsval \<Rightarrow> bool" where
  "idb_valid_key (JNum n) = True"
| "idb_valid_key (JStr s) = True"
| "idb_valid_key v = False"

definition store_add :: "ObjectStore \<Rightarrow> NewRecord \<Rightarrow> ObjectStore" where
  "store_add st r =
     (let k = keyGenerator st;
          stored = \<lparr>rid = k, data = new_data r, timestamp = new_timestamp r,
                    sessionId = new_sessionId r\<rparr>
      in \<lparr>records = records st @ [stored],
          keyGenerator = Suc k,
          sessionIdIndex =
            (if idb_valid_key (new_sessionId r)
             then sessionIdIndex st @ [(new_sessionId r, k)] else sessionIdIndex st),
          timestampIndex = timestampIndex st @ [(new_timestamp r, k)]\<rparr>)"

text \<open>\<open>store.getAll()\<close>: every record, in ascending key order.\<close>

definition store_getAll :: "ObjectStore \<Rightarrow> StoredRecord list" where
  "store_getAll st = records st"

text \<open>\<open>store.index('sessionId').getAll(key)\<close>: the records the index entries of \<open>key\<close> refer to.\<close>

definition store_get :: "ObjectStore \<Rightarrow> nat \<Rightarrow> StoredRecord list" where
  "store_get st k = (case find (\<lambda>r. rid r = k) (records st) of None \<Rightarrow> [] | Some r \<Rightarrow> [r])"

definition index_getAll :: "ObjectStore \<Rightarrow> jsval \<Rightarrow> StoredRecord list" where
  "index_getAll st key =
     concat (map (\<lambda>(k, pk). if k = key then store_get st pk else []) (sessionIdIndex st))"

text \<open>
  The browser around the manager: the persisted database \<open>rrweb\<close> (its object stores by
  name; \<open>None\<close> when the database does not exist), whether a deletion of it is pending
  behind connections that are still open, the \<open>rrweb-session-id\<close> item of
  \<open>sessionStorage\<close>, the clock read by \<open>Date.now()\<close>, the result of
  \<open>Math.random().toString(36).substring(2)\<close>, today's date as \<open>toISOString\<close> prints it,
  and the outcomes the backend will give to the coming write transactions (none left: the
  write commits).

  A write transaction either commits; or cannot be started (\<open>transaction\<close> throws); or its
  request fails (\<open>add\<close> throws, or the request gets an error event, also when the
  transaction is aborted under it); or its request succeeds and the transaction aborts
  when it commits.
\<close>

datatype WriteOutcome = WriteOk | TransactionThrows | RequestError | CommitAborts

record World =
  database :: "(string \<times> ObjectStore) list option"
  deletionPending :: bool
  sessionItem :: "string option"
  clock :: nat
  randomSuffix :: string
  isoDate :: string
  writeOutcomes :: "WriteOutcome list"

text \<open>The handle \<open>IDBDatabase\<close> held by the manager: an open connection to a named database.\<close>

record IDBDatabase =
  dbName :: string
  dbVersion :: nat

datatype Error =
    DatabaseNotReady
  | DatabaseNotAvailable
  | EventsStoreNotCreated
  | FailedToOpenIndexedDB
  | DatabaseOpenBlocked
  | BackendError

text \<open>\<open>class RRWebDBManager\<close>: its private fields.\<close>

record RRWebDBManager =
  db :: "IDBDatabase option"
  isInitializing :: bool
  isReady :: bool
  eventQueue :: "RRWebEvent list"
  maxQueueSize :: nat

definition newManager :: RRWebDBManager where
  "newManager =
     \<lparr>db = None, isInitializing = False, isReady = False, eventQueue = [],
      maxQueueSize = 1000\<rparr>"

section \<open>JavaScript library functions the manager calls\<close>

text \<open>\<open>Array.prototype.slice(start)\<close>: a negative start counts from the end; \<open>-0\<close> is \<open>0\<close>.\<close>

definition js_slice :: "'a list \<Rightarrow> int \<Rightarrow> 'a list" where
  "js_slice xs start =
     (let len = int (length xs);
          k = (if start < 0 then max (len + start) 0 else min start len)
      in drop (nat k) xs)"

text \<open>Decimal printing of a non-negative number, as string concatenation does it.\<close>

fun digits :: "nat \<Rightarrow> string" where
  "digits n =
     (if n < 10 then [char_of (48 + n)]
      else digits (n div 10) @ [char_of (48 + n mod 10)])"

declare digits.simps [simp del]

section \<open>The write path\<close>

text \<open>
  Every \<open>async\<close> method is modelled as running to completion, the outcome of each request
  to the backend being given; where a claim is about the moment a call returns, the
  synchronous part of the method up to its first \<open>await\<close> is a function of its own, and
  the drain of the queue has a second form in which events are emitted while its writes
  are awaited. Messages written to the console are left out.
\<close>

definition eventsStore :: "World \<Rightarrow> ObjectStore option" where
  "eventsStore w = (case database w of None \<Rightarrow> None | Some d \<Rightarrow> map_of d ''events'')"

definition putEventsStore :: "ObjectStore \<Rightarrow> World \<Rightarrow> World" where
  "putEventsStore st w =
     (case database w of
        None \<Rightarrow> w
      | Some d \<Rightarrow> w\<lparr>database := Some (AList.update ''events'' st d)\<rparr>)"

text \<open>\<open>getSessionId()\<close>: the persisted id, or a fresh one that is persisted.\<close>

definition getSessionId :: "World \<Rightarrow> string \<times> World" where
  "getSessionId w =
     (case sessionItem w of
        Some s \<Rightarrow>
          if s \<noteq> [] then (s, w)
          else (let s' = ''session-'' @ digits (clock w) @ ''-'' @ randomSuffix w
                in (s', w\<lparr>sessionItem := Some s'\<rparr>))
      | None \<Rightarrow>
          (let s' = ''session-'' @ digits (clock w) @ ''-'' @ randomSuffix w
           in (s', w\<lparr>sessionItem := Some s'\<rparr>)))"

text \<open>
  \<open>saveEventToDatabase(event)\<close>: rejects when there is no handle; otherwise opens a
  read-write transaction on \<open>events\<close> (which throws when the store is missing or the
  backend refuses), builds the record (reading the clock and the session id) and adds it.
  The promise is settled by the first of its handlers to run. It rejects when the
  transaction cannot be started or the request fails, and the store is as it was. It
  resolves when the request succeeds: an abort of the transaction at commit comes after
  that, so its \<open>reject\<close> has no effect, the caller sees a success and nothing is stored.
\<close>

definition nextOutcome :: "World \<Rightarrow> WriteOutcome \<times> World" where
  "nextOutcome w =
     (case writeOutcomes w of
        [] \<Rightarrow> (WriteOk, w)
      | x # rest \<Rightarrow> (x, w\<lparr>writeOutcomes := rest\<rparr>))"

definition saveEventToDatabase ::
  "World \<Rightarrow> RRWebDBManager \<Rightarrow> RRWebEvent \<Rightarrow> World \<times> (Error + unit)" where
  "saveEventToDatabase w m event =
     (if db m = None then (w, Inl DatabaseNotAvailable)
      else case eventsStore w of
        None \<Rightarrow> (w, Inl BackendError)
      | Some st \<Rightarrow>
          (let (outcome, w1) = nextOutcome w
           in if outcome = TransactionThrows then (w1, Inl BackendError)
              else
                (let now = int (clock w1);
                     (sid, w2) = getSessionId w1;
                     r = \<lparr>new_data = event, new_timestamp = now, new_sessionId = JStr sid\<rparr>
                 in case outcome of
                      WriteOk \<Rightarrow> (putEventsStore (store_add st r) w2, Inr ())
                    | CommitAborts \<Rightarrow> (w2, Inr ())
                    | _ \<Rightarrow> (w2, Inl BackendError))))"

text \<open>
  \<open>saveEvent(event)\<close>: while not ready (or without a handle) the event is pushed on the
  queue, which is then cut to its last \<open>maxQueueSize\<close> entries; otherwise the event is
  written, and pushed on the queue when the write is rejected.
\<close>

definition saveEvent :: "World \<Rightarrow> RRWebDBManager \<Rightarrow> RRWebEvent \<Rightarrow> World \<times> RRWebDBManager" where
  "saveEvent w m event =
     (if \<not> isReady m \<or> db m = None then
        (let q = eventQueue m @ [event]
         in (w, m\<lparr>eventQueue :=
                    (if length q > maxQueueSize m
                     then js_slice q (- int (maxQueueSize m)) else q)\<rparr>))
      else case saveEventToDatabase w m event of
        (w', Inr u) \<Rightarrow> (w', m)
      | (w', Inl err) \<Rightarrow> (w', m\<lparr>eventQueue := eventQueue m @ [event]\<rparr>))"

text \<open>
  \<open>processEventQueue()\<close>: nothing to do on an empty queue; otherwise the queue is copied
  and emptied, and the copy is written event by event. The first rejected write pushes
  that event back on the queue and leaves the loop.
\<close>

fun drainLoop ::
  "World \<Rightarrow> RRWebDBManager \<Rightarrow> RRWebEvent list \<Rightarrow> World \<times> RRWebDBManager" where
  "drainLoop w m [] = (w, m)"
| "drainLoop w m (event # rest) =
     (case saveEventToDatabase w m event of
        (w', Inr u) \<Rightarrow> drainLoop w' m rest
      | (w', Inl err) \<Rightarrow> (w', m\<lparr>eventQueue := eventQueue m @ [event]\<rparr>))"

definition processEventQueue :: "World \<Rightarrow> RRWebDBManager \<Rightarrow> World \<times> RRWebDBManager" where
  "processEventQueue w m =
     (if length (eventQueue m) = 0 then (w, m)
      else (let eventsToProcess = eventQueue m
            in drainLoop w (m\<lparr>eventQueue := []\<rparr>) eventsToProcess))"

section \<open>The lifecycle\<close>

text \<open>
  \<open>deleteDatabase()\<close>: asks the browser to delete \<open>rrweb\<close> and resolves whatever the
  answer is. A successful deletion removes the database and a failed one leaves it. A
  blocked one resolves the promise while the database is still there: the deletion stays
  pending until the connections that block it are closed.
\<close>

datatype DeleteOutcome = DeleteSuccess | DeleteError | DeleteBlocked

definition deleteDatabase :: "DeleteOutcome \<Rightarrow> World \<Rightarrow> World" where
  "deleteDatabase outcome w =
     (case outcome of
        DeleteSuccess \<Rightarrow> w\<lparr>database := None, deletionPending := False\<rparr>
      | DeleteError \<Rightarrow> w
      | DeleteBlocked \<Rightarrow> w\<lparr>deletionPending := True\<rparr>)"

text \<open>
  \<open>openDatabase()\<close>: opens \<open>rrweb\<close> at version 1. The request is served after a pending
  deletion, which has removed the database by then. A database that does not exist yet is
  upgraded: its object stores (none) are removed and \<open>events\<close> is created with its indices.
  On success the handle is returned if \<open>events\<close> exists; an error or a blocked request
  rejects.
\<close>

datatype OpenOutcome = OpenSuccess | OpenError | OpenBlocked

definition openDatabase :: "OpenOutcome \<Rightarrow> World \<Rightarrow> World \<times> (Error + IDBDatabase)" where
  "openDatabase outcome w =
     (let w0 = (if deletionPending w then w\<lparr>database := None, deletionPending := False\<rparr>
                else w)
      in case outcome of
        OpenError \<Rightarrow> (w0, Inl FailedToOpenIndexedDB)
      | OpenBlocked \<Rightarrow> (w0, Inl DatabaseOpenBlocked)
      | OpenSuccess \<Rightarrow>
          (let w' = (case database w0 of
                       None \<Rightarrow> w0\<lparr>database := Some [(''events'', createObjectStore)]\<rparr>
                     | Some d \<Rightarrow> w0)
           in if eventsStore w' = None then (w', Inl EventsStoreNotCreated)
              else (w', Inr \<lparr>dbName = ''rrweb'', dbVersion = 1\<rparr>)))"

text \<open>
  \<open>initialize()\<close> runs synchronously up to its first \<open>await\<close>: either the guard returns
  at once, or the manager is marked as initializing, its handle is closed and dropped, and
  the call waits for \<open>deleteDatabase()\<close>.
\<close>

datatype 'a Started = Returned 'a | Awaiting 'a

definition initialize_start :: "RRWebDBManager \<Rightarrow> RRWebDBManager Started" where
  "initialize_start m =
     (if isReady m \<or> isInitializing m then Returned m
      else Awaiting (m\<lparr>isInitializing := True, db := None\<rparr>))"

text \<open>The rest of \<open>initialize()\<close>, from the deletion on, with nothing else interleaved.\<close>

definition initialize_resume ::
  "DeleteOutcome \<Rightarrow> OpenOutcome \<Rightarrow> World \<Rightarrow> RRWebDBManager
     \<Rightarrow> World \<times> RRWebDBManager \<times> (Error + unit)" where
  "initialize_resume dout oout w m =
     (let w1 = deleteDatabase dout w
      in case openDatabase oout w1 of
           (w2, Inr handle) \<Rightarrow>
             (let m1 = m\<lparr>db := Some handle, isReady := True, isInitializing := False\<rparr>;
                  (w3, m2) = processEventQueue w2 m1
              in (w3, m2, Inr ()))
         | (w2, Inl err) \<Rightarrow>
             (w2, m\<lparr>isInitializing := False, isReady := False\<rparr>, Inl err))"

definition initialize ::
  "DeleteOutcome \<Rightarrow> OpenOutcome \<Rightarrow> World \<Rightarrow> RRWebDBManager
     \<Rightarrow> World \<times> RRWebDBManager \<times> (Error + unit)" where
  "initialize dout oout w m =
     (case initialize_start m of
        Returned m' \<Rightarrow> (w, m', Inr ())
      | Awaiting m' \<Rightarrow> initialize_resume dout oout w m')"

text \<open>
  \<open>clearDatabase()\<close>: synchronously marks the manager not ready, closes and drops the
  handle and empties the queue; then waits for the deletion and returns.
\<close>

definition clearDatabase_start :: "RRWebDBManager \<Rightarrow> RRWebDBManager" where
  "clearDatabase_start m =
     m\<lparr>isReady := False, isInitializing := False, db := None, eventQueue := []\<rparr>"

definition clearDatabase ::
  "DeleteOutcome \<Rightarrow> World \<Rightarrow> RRWebDBManager \<Rightarrow> World \<times> RRWebDBManager" where
  "clearDatabase dout w m =
     (let m1 = clearDatabase_start m;
          w1 = deleteDatabase dout w
      in (w1, m1))"

section \<open>The read path\<close>

datatype ReadOutcome = ReadSuccess | ReadRequestError | ReadTransactionError

text \<open>
  \<open>getAllEvents()\<close> and \<open>getEventsBySession(sessionId)\<close>: throw unless the manager is
  ready and holds a handle; otherwise resolve with the result of the request, or reject
  with the error of the request or of the transaction.
\<close>

definition getAllEvents ::
  "ReadOutcome \<Rightarrow> World \<Rightarrow> RRWebDBManager \<Rightarrow> Error + StoredRecord list" where
  "getAllEvents rd w m =
     (if db m = None \<or> \<not> isReady m then Inl DatabaseNotReady
      else case eventsStore w of
        None \<Rightarrow> Inl BackendError
      | Some st \<Rightarrow>
          (case rd of
             ReadSuccess \<Rightarrow> Inr (store_getAll st)
           | ReadRequestError \<Rightarrow> Inl BackendError
           | ReadTransactionError \<Rightarrow> Inl BackendError))"

definition getEventsBySession ::
  "ReadOutcome \<Rightarrow> World \<Rightarrow> RRWebDBManager \<Rightarrow> string \<Rightarrow> Error + StoredRecord list" where
  "getEventsBySession rd w m sid =
     (if db m = None \<or> \<not> isReady m then Inl DatabaseNotReady
      else case eventsStore w of
        None \<Rightarrow> Inl BackendError
      | Some st \<Rightarrow>
          (case rd of
             ReadSuccess \<Rightarrow> Inr (index_getAll st (JStr sid))
           | ReadRequestError \<Rightarrow> Inl BackendError
           | ReadTransactionError \<Rightarrow> Inl BackendError))"

text \<open>Truthiness, \<open>typeof\<close>, \<open>indexOf\<close> and \<open>filter\<close> with an index-aware callback.\<close>

fun js_truthy :: "jsval \<Rightarrow> bool" where
  "js_truthy JUndefined = False"
| "js_truthy JNull = False"
| "js_truthy (JBool b) = b"
| "js_truthy (JNum n) = (n \<noteq> 0)"
| "js_truthy (JStr s) = (s \<noteq> [])"

fun js_typeof :: "jsval \<Rightarrow> string" where
  "js_typeof JUndefined = ''undefined''"
| "js_typeof JNull = ''object''"
| "js_typeof (JBool b) = ''boolean''"
| "js_typeof (JNum n) = ''number''"
| "js_typeof (JStr s) = ''string''"

fun js_indexOf :: "'a list \<Rightarrow> 'a \<Rightarrow> int" where
  "js_indexOf [] x = - 1"
| "js_indexOf (y # ys) x =
     (if y = x then 0
      else (let i = js_indexOf ys x in if i < 0 then - 1 else i + 1))"

definition js_filter_indexed :: "('a \<Rightarrow> nat \<Rightarrow> 'a list \<Rightarrow> bool) \<Rightarrow> 'a list \<Rightarrow> 'a list" where
  "js_filter_indexed p xs =
     map fst (filter (\<lambda>(x, i). p x i xs) (zip xs [0..<length xs]))"

text \<open>
  \<open>getAllSessions()\<close>: reads every record and keeps, of the \<open>sessionId\<close> fields, the
  truthy strings at the position of their first occurrence.
\<close>

definition sessionIdsOf :: "StoredRecord list \<Rightarrow> jsval list" where
  "sessionIdsOf events =
     js_filter_indexed (\<lambda>sid index array. js_indexOf array sid = int index)
       (filter (\<lambda>sid. js_truthy sid \<and> js_typeof sid = ''string'')
         (map sessionId events))"

definition getAllSessions ::
  "ReadOutcome \<Rightarrow> World \<Rightarrow> RRWebDBManager \<Rightarrow> Error + jsval list" where
  "getAllSessions rd w m =
     (if db m = None \<or> \<not> isReady m then Inl DatabaseNotReady
      else case eventsStore w of
        None \<Rightarrow> Inl BackendError
      | Some st \<Rightarrow>
          (case rd of
             ReadSuccess \<Rightarrow> Inr (sessionIdsOf (store_getAll st))
           | ReadRequestError \<Rightarrow> Inl BackendError
           | ReadTransactionError \<Rightarrow> Inl BackendError))"

text \<open>
  \<open>JSON.stringify\<close>, property by property: \<open>undefined\<close> has no serialization (it is
  \<open>null\<close> in an array and left out of an object), NaN and the infinities are \<open>null\<close>,
  negative zero is \<open>0\<close>, a date is its text, and a BigInt or a cycle throws.
\<close>

datatype 'a Serialized = Omitted | Throws | Doc 'a

fun serializeJSONProperty :: "jsdata \<Rightarrow> jsondoc Serialized" where
  "serializeJSONProperty DUndefined = Omitted"
| "serializeJSONProperty DNull = Doc JsonNull"
| "serializeJSONProperty (DBool b) = Doc (JsonBool b)"
| "serializeJSONProperty (DNum q) = Doc (JsonNum q)"
| "serializeJSONProperty DNegZero = Doc (JsonNum 0)"
| "serializeJSONProperty DNaN = Doc JsonNull"
| "serializeJSONProperty DInfinity = Doc JsonNull"
| "serializeJSONProperty DNegInfinity = Doc JsonNull"
| "serializeJSONProperty (DStr s) = Doc (JsonStr s)"
| "serializeJSONProperty (DBigInt n) = Throws"
| "serializeJSONProperty (DDate text) = Doc (JsonStr text)"
| "serializeJSONProperty DCyclic = Throws"
| "serializeJSONProperty (DArr xs) =
     (let rs = map serializeJSONProperty xs
      in if Throws \<in> set rs then Throws
         else Doc (JsonArr (map (\<lambda>r. case r of Doc d \<Rightarrow> d | _ \<Rightarrow> JsonNull) rs)))"
| "serializeJSONProperty (DObj kvs) =
     (let rs = map (\<lambda>(k, v). (k, serializeJSONProperty v)) kvs
      in if Throws \<in> snd ` set rs then Throws
         else Doc (JsonObj (concat (map (\<lambda>(k, r). case r of Doc d \<Rightarrow> [(k, d)] | _ \<Rightarrow> []) rs))))"

text \<open>\<open>JSON.stringify(value, null, 2)\<close>: \<open>None\<close> when it throws or returns \<open>undefined\<close>.\<close>

definition JSON_stringify :: "jsdata \<Rightarrow> jsondoc option" where
  "JSON_stringify v = (case serializeJSONProperty v of Doc d \<Rightarrow> Some d | _ \<Rightarrow> None)"

text \<open>\<open>JSON.parse\<close>: of two members with one name, the later value is kept, in the place of the first.\<close>

fun JSON_parse :: "jsondoc \<Rightarrow> jsdata" where
  "JSON_parse JsonNull = DNull"
| "JSON_parse (JsonBool b) = DBool b"
| "JSON_parse (JsonNum q) = DNum q"
| "JSON_parse (JsonStr s) = DStr s"
| "JSON_parse (JsonArr ds) = DArr (map JSON_parse ds)"
| "JSON_parse (JsonObj kds) =
     DObj (foldl (\<lambda>props (k, d). AList.update k (JSON_parse d) props) [] kds)"

text \<open>An event as the object it is: \<open>delay\<close> is a property only when it is there.\<close>

definition eventValue :: "RRWebEvent \<Rightarrow> jsdata" where
  "eventValue e =
     DObj ([(''type'', DNum (of_int (ev_type e))), (''data'', ev_data e),
            (''timestamp'', DNum (of_int (ev_timestamp e)))]
           @ (case ev_delay e of None \<Rightarrow> [] | Some d \<Rightarrow> [(''delay'', DNum (of_int d))]))"

text \<open>
  \<open>exportSession(sessionId)\<close>: what the user sees is an alert or a download. The document
  downloaded is \<open>JSON.stringify(rrwebEvents, null, 2)\<close>. Every failure inside the \<open>try\<close> is
  caught and reported by an alert: a failed read, a serialization that throws, and the
  blob, the URL or the link failing before the click.
\<close>

datatype DownloadOutcome = DownloadStarts | DownloadThrows

datatype Effect = Alert string | Download string jsondoc

definition exportSession ::
  "DownloadOutcome \<Rightarrow> ReadOutcome \<Rightarrow> World \<Rightarrow> RRWebDBManager \<Rightarrow> string
     \<Rightarrow> World \<times> RRWebDBManager \<times> Effect list" where
  "exportSession dl rd w m sid =
     (case getEventsBySession rd w m sid of
        Inr events \<Rightarrow>
          if length events = 0 then (w, m, [Alert ''No events found for this session''])
          else
            (let rrwebEvents = map data events
             in case JSON_stringify (DArr (map eventValue rrwebEvents)) of
                  None \<Rightarrow>
                    (w, m, [Alert ''Failed to export session. Check console for details.''])
                | Some doc \<Rightarrow>
                    (case dl of
                       DownloadThrows \<Rightarrow>
                         (w, m, [Alert ''Failed to export session. Check console for details.''])
                     | DownloadStarts \<Rightarrow>
                         (let download = ''rrweb-session-'' @ take 15 sid @ ''-''
                                           @ isoDate w @ ''.json''
                          in (w, m, [Download download doc]))))
      | Inl err \<Rightarrow>
          (w, m, [Alert ''Failed to export session. Check console for details.'']))"

section \<open>Callers and specification functions\<close>

text \<open>The recorder's \<open>emit\<close> callback calls \<open>saveEvent\<close> once per event, in order.\<close>

fun emitAll :: "World \<Rightarrow> RRWebDBManager \<Rightarrow> RRWebEvent list \<Rightarrow> World \<times> RRWebDBManager" where
  "emitAll w m [] = (w, m)"
| "emitAll w m (event # rest) = (case saveEvent w m event of (w', m') \<Rightarrow> emitAll w' m' rest)"

text \<open>
  The drain awaits each of its writes, and \<open>emit\<close> can run meanwhile. \<open>arrivals\<close> gives,
  for each write of the drain in turn, the events emitted while it is awaited: their own
  transactions are created after the awaited one and before the next of the drain, and
  the store serves transactions in the order of their creation. With no arrivals this is
  \<open>drainLoop\<close>.
\<close>

fun drainLoopWith ::
  "World \<Rightarrow> RRWebDBManager \<Rightarrow> RRWebEvent list \<Rightarrow> RRWebEvent list list
     \<Rightarrow> World \<times> RRWebDBManager" where
  "drainLoopWith w m [] arrivals = (w, m)"
| "drainLoopWith w m (event # rest) arrivals =
     (case saveEventToDatabase w m event of
        (w1, result) \<Rightarrow>
          (case emitAll w1 m (case arrivals of [] \<Rightarrow> [] | a # later \<Rightarrow> a) of
             (w2, m2) \<Rightarrow>
               (case result of
                  Inr u \<Rightarrow> drainLoopWith w2 m2 rest (tl arrivals)
                | Inl err \<Rightarrow> (w2, m2\<lparr>eventQueue := eventQueue m2 @ [event]\<rparr>))))"

definition processEventQueueWith ::
  "RRWebEvent list list \<Rightarrow> World \<Rightarrow> RRWebDBManager \<Rightarrow> World \<times> RRWebDBManager" where
  "processEventQueueWith arrivals w m =
     (if length (eventQueue m) = 0 then (w, m)
      else (let eventsToProcess = eventQueue m
            in drainLoopWith w (m\<lparr>eventQueue := []\<rparr>) eventsToProcess arrivals))"

definition initializeWith ::
  "RRWebEvent list list \<Rightarrow> DeleteOutcome \<Rightarrow> OpenOutcome \<Rightarrow> World \<Rightarrow> RRWebDBManager
     \<Rightarrow> World \<times> RRWebDBManager \<times> (Error + unit)" where
  "initializeWith arrivals dout oout w m =
     (case initialize_start m of
        Returned m' \<Rightarrow> (w, m', Inr ())
      | Awaiting m' \<Rightarrow>
          (let w1 = deleteDatabase dout w
           in case openDatabase oout w1 of
                (w2, Inr handle) \<Rightarrow>
                  (let m1 = m'\<lparr>db := Some handle, isReady := True, isInitializing := False\<rparr>;
                       (w3, m2) = processEventQueueWith arrivals w2 m1
                   in (w3, m2, Inr ()))
              | (w2, Inl err) \<Rightarrow>
                  (w2, m'\<lparr>isInitializing := False, isReady := False\<rparr>, Inl err)))"

text \<open>
  The values \<open>JSON\<close> can carry: no \<open>undefined\<close>, no number without a JSON numeral, no date,
  no BigInt, no cycle, and objects without a repeated property name. \<open>docOf\<close> is the
  document of such a value.
\<close>

fun json_safe :: "jsdata \<Rightarrow> bool" where
  "json_safe DNull = True"
| "json_safe (DBool b) = True"
| "json_safe (DNum q) = True"
| "json_safe (DStr s) = True"
| "json_safe (DArr xs) = list_all json_safe xs"
| "json_safe (DObj kvs) = (distinct (map fst kvs) \<and> list_all (\<lambda>(k, v). json_safe v) kvs)"
| "json_safe v = False"

fun docOf :: "jsdata \<Rightarrow> jsondoc" where
  "docOf (DBool b) = JsonBool b"
| "docOf (DNum q) = JsonNum q"
| "docOf (DStr s) = JsonStr s"
| "docOf (DArr xs) = JsonArr (map docOf xs)"
| "docOf (DObj kvs) = JsonObj (map (\<lambda>(k, v). (k, docOf v)) kvs)"
| "docOf v = JsonNull"

text \<open>The documents offered for download among the effects of a call.\<close>

fun downloads :: "Effect list \<Rightarrow> jsondoc list" where
  "downloads [] = []"
| "downloads (Download name doc # rest) = doc # downloads rest"
| "downloads (Alert msg # rest) = downloads rest"

text \<open>The last \<open>c\<close> entries of a list, in their order.\<close>

definition keepLast :: "nat \<Rightarrow> 'a list \<Rightarrow> 'a list" where
  "keepLast c xs = drop (length xs - c) xs"

text \<open>Each element once, at the position of its first appearance.\<close>

fun firstSeen :: "'a list \<Rightarrow> 'a list" where
  "firstSeen [] = []"
| "firstSeen (x # xs) = x # firstSeen (removeAll x xs)"

text \<open>The record \<open>saveEventToDatabase\<close> builds for an event in a given world.\<close>

definition recordFor :: "World \<Rightarrow> RRWebEvent \<Rightarrow> NewRecord" where
  "recordFor w event =
     \<lparr>new_data = event, new_timestamp = int (clock w),
      new_sessionId = JStr (fst (getSessionId w))\<rparr>"

section \<open>Invariants of a store written through the manager\<close>

text \<open>
  The index holds one entry per record with a valid key, in record order; keys are distinct
  and below the key generator. Every record written by \<open>saveEventToDatabase\<close> carries the
  session id returned by \<open>getSessionId\<close>, a non-empty string.
\<close>

definition store_consistent :: "ObjectStore \<Rightarrow> bool" where
  "store_consistent st \<longleftrightarrow>
     sessionIdIndex st =
       map (\<lambda>r. (sessionId r, rid r)) (filter (\<lambda>r. idb_valid_key (sessionId r)) (records st))
     \<and> distinct (map rid (records st))
     \<and> list_all (\<lambda>r. rid r < keyGenerator st) (records st)"

definition sessions_tagged :: "ObjectStore \<Rightarrow> bool" where
  "sessions_tagged st =
     list_all (\<lambda>r. js_truthy (sessionId r) \<and> js_typeof (sessionId r) = ''string'')
       (records st)"

definition world_consistent :: "World \<Rightarrow> bool" where
  "world_consistent w =
     (case eventsStore w of
        None \<Rightarrow> True
      | Some st \<Rightarrow> store_consistent st \<and> sessions_tagged st)"

section \<open>Sample data for concrete runs\<close>

definition openHandle :: IDBDatabase where
  "openHandle = \<lparr>dbName = ''rrweb'', dbVersion = 1\<rparr>"

definition sampleEvent :: "nat \<Rightarrow> RRWebEvent" where
  "sampleEvent n = \<lparr>ev_type = 3, ev_data = DNull, ev_timestamp = int n, ev_delay = None\<rparr>"

definition sampleWorld :: World where
  "sampleWorld =
     \<lparr>database = None, deletionPending = False, sessionItem = None, clock = 1700,
      randomSuffix = ''k3x'', isoDate = ''2024-01-01'', writeOutcomes = []\<rparr>"

definition inFlightManager :: RRWebDBManager where
  "inFlightManager = newManager\<lparr>isInitializing := True\<rparr>"

definition readyManager :: RRWebDBManager where
  "readyManager = newManager\<lparr>db := Some openHandle, isReady := True\<rparr>"

definition readyWorld :: World where
  "readyWorld = sampleWorld\<lparr>database := Some [(''events'', createObjectStore)]\<rparr>"

definition manyEvents :: "RRWebEvent list" where
  "manyEvents = map sampleEvent [0..<1001]"

definition twoSessionStore :: ObjectStore where
  "twoSessionStore =
     foldl store_add createObjectStore
       [\<lparr>new_data = sampleEvent 1, new_timestamp = 10, new_sessionId = JStr ''s1''\<rparr>,
        \<lparr>new_data = sampleEvent 2, new_timestamp = 11, new_sessionId = JStr ''s2''\<rparr>,
        \<lparr>new_data = sampleEvent 3, new_timestamp = 12, new_sessionId = JStr ''s1''\<rparr>]"

definition twoSessionWorld :: World where
  "twoSessionWorld = sampleWorld\<lparr>database := Some [(''events'', twoSessionStore)]\<rparr>"

definition mixedStore :: ObjectStore where
  "mixedStore =
     foldl store_add createObjectStore
       [\<lparr>new_data = sampleEvent 1, new_timestamp = 10, new_sessionId = JNull\<rparr>,
        \<lparr>new_data = sampleEvent 2, new_timestamp = 11, new_sessionId = JStr ''s1''\<rparr>,
        \<lparr>new_data = sampleEvent 3, new_timestamp = 12, new_sessionId = JNum 7\<rparr>,
        \<lparr>new_data = sampleEvent 4, new_timestamp = 13, new_sessionId = JStr []\<rparr>,
        \<lparr>new_data = sampleEvent 5, new_timestamp = 14, new_sessionId = JStr ''s2''\<rparr>,
        \<lparr>new_data = sampleEvent 6, new_timestamp = 15, new_sessionId = JUndefined\<rparr>,
        \<lparr>new_data = sampleEvent 7, new_timestamp = 16, new_sessionId = JStr ''s1''\<rparr>]"

definition mixedWorld :: World where
  "mixedWorld = sampleWorld\<lparr>database := Some [(''events'', mixedStore)]\<rparr>"

text \<open>An event with a structured payload, and a store that holds it among two sessions.\<close>

definition richEvent :: RRWebEvent where
  "richEvent =
     \<lparr>ev_type = 3,
      ev_data = DObj [(''source'', DNum 2),
                      (''positions'', DArr [DObj [(''x'', DNum (1 / 2)), (''id'', DStr ''n7'')]])],
      ev_timestamp = 1700, ev_delay = Some 4\<rparr>"

definition richStore :: ObjectStore where
  "richStore =
     foldl store_add createObjectStore
       [\<lparr>new_data = richEvent, new_timestamp = 10, new_sessionId = JStr ''s1''\<rparr>,
        \<lparr>new_data = sampleEvent 2, new_timestamp = 11, new_sessionId = JStr ''s2''\<rparr>,
        \<lparr>new_data = sampleEvent 3, new_timestamp = 12, new_sessionId = JStr ''s1''\<rparr>]"

definition richWorld :: World where
  "richWorld = sampleWorld\<lparr>database := Some [(''events'', richStore)]\<rparr>"

text \<open>An event whose payload holds NaN, alone in its store.\<close>

definition nanEvent :: RRWebEvent where
  "nanEvent =
     \<lparr>ev_type = 3, ev_data = DObj [(''x'', DNaN)], ev_timestamp = 1700, ev_delay = None\<rparr>"

definition nanStore :: ObjectStore where
  "nanStore =
     foldl store_add createObjectStore
       [\<lparr>new_data = nanEvent, new_timestamp = 10, new_sessionId = JStr ''s1''\<rparr>]"

definition nanWorld :: World where
  "nanWorld = sampleWorld\<lparr>database := Some [(''events'', nanStore)]\<rparr>"

text \<open>
  Two events are captured before the manager is ready; a third is captured while the
  drain of \<open>initialize\<close> awaits its first write.
\<close>

definition raceRun :: "World \<times> RRWebDBManager \<times> (Error + unit)" where
  "raceRun =
     initializeWith [[sampleEvent 3]] DeleteSuccess OpenSuccess sampleWorld
       (snd (emitAll sampleWorld newManager [sampleEvent 1, sampleEvent 2]))"
text \<open>
  A run from the new manager: a successful initialization, a clear, three events saved
  after the clear, and a new initialization during which the backend commits the first
  write and rejects the second.
\<close>

definition startedRun :: "World \<times> RRWebDBManager \<times> (Error + unit)" where
  "startedRun = initialize DeleteSuccess OpenSuccess sampleWorld newManager"

definition clearedRun :: "World \<times> RRWebDBManager" where
  "clearedRun = clearDatabase DeleteSuccess (fst startedRun) (fst (snd startedRun))"

definition savedAfterClear :: "World \<times> RRWebDBManager" where
  "savedAfterClear =
     emitAll (fst clearedRun) (snd clearedRun) [sampleEvent 1, sampleEvent 2, sampleEvent 3]"

definition reinitializedRun :: "World \<times> RRWebDBManager \<times> (Error + unit)" where
  "reinitializedRun =
     initialize DeleteSuccess OpenSuccess
       ((fst savedAfterClear)\<lparr>writeOutcomes := [WriteOk, RequestError]\<rparr>)
       (snd savedAfterClear)"

section \<open>The bounded queue\<close>

lemma js_slice_neg: "0 < c \<Longrightarrow> js_slice xs (- int c) = drop (length xs - c) xs"
  by (auto simp: js_slice_def Let_def max_def nat_diff_distrib' intro!: arg_cong2[where f=drop])

lemma js_slice_zero: "js_slice xs 0 = xs"
  by (simp add: js_slice_def)

lemma saveEvent_not_ready:
  "\<not> isReady m \<or> db m = None \<Longrightarrow>
   saveEvent w m e =
     (w, m\<lparr>eventQueue := (if maxQueueSize m = 0 then eventQueue m @ [e]
                            else keepLast (maxQueueSize m) (eventQueue m @ [e]))\<rparr>)"
  by (auto simp: saveEvent_def Let_def js_slice_neg js_slice_zero keepLast_def)

lemma keepLast_keepLast_append:
  "keepLast c (keepLast c xs @ ys) = keepLast c (xs @ ys)"
  by (cases "c \<le> length xs") (auto simp: keepLast_def add.commute)

lemma emitAll_not_ready:
  "\<not> isReady m \<or> db m = None \<Longrightarrow>
   emitAll w m es =
     (w, m\<lparr>eventQueue := (if maxQueueSize m = 0 \<or> es = [] then eventQueue m @ es
                            else keepLast (maxQueueSize m) (eventQueue m @ es))\<rparr>)"
proof (induction es arbitrary: m)
  case Nil
  then show ?case by simp
next
  case (Cons e es)
  let ?m1 = "m\<lparr>eventQueue := (if maxQueueSize m = 0 then eventQueue m @ [e]
                            else keepLast (maxQueueSize m) (eventQueue m @ [e]))\<rparr>"
  have s: "saveEvent w m e = (w, ?m1)" using Cons.prems by (rule saveEvent_not_ready)
  have nr: "\<not> isReady ?m1 \<or> db ?m1 = None" using Cons.prems by simp
  show ?case
    using Cons.IH[OF nr] s
    by (auto simp: keepLast_keepLast_append)
qed


section \<open>Writes that commit, writes that are rejected\<close>

lemma getSessionId_keeps [simp]:
  "database (snd (getSessionId w)) = database w"
  "writeOutcomes (snd (getSessionId w)) = writeOutcomes w"
  "clock (snd (getSessionId w)) = clock w"
  "isoDate (snd (getSessionId w)) = isoDate w"
  by (auto simp: getSessionId_def Let_def split: option.splits)

lemma getSessionId_nonempty: "fst (getSessionId w) \<noteq> []"
  by (auto simp: getSessionId_def Let_def split: option.splits)

lemma eventsStore_getSessionId [simp]: "eventsStore (snd (getSessionId w)) = eventsStore w"
  by (simp add: eventsStore_def)

lemma eventsStore_putEventsStore:
  "eventsStore w = Some st \<Longrightarrow> eventsStore (putEventsStore st' w) = Some st'"
  by (auto simp: eventsStore_def putEventsStore_def update_conv' split: option.splits)

lemma writeOutcomes_putEventsStore [simp]:
  "writeOutcomes (putEventsStore st' w) = writeOutcomes w"
  by (auto simp: putEventsStore_def split: option.splits)

lemma saveEventToDatabase_commits:
  assumes "db m \<noteq> None" "eventsStore w = Some st" "writeOutcomes w = []"
  shows "saveEventToDatabase w m e =
           (putEventsStore (store_add st (recordFor w e)) (snd (getSessionId w)), Inr ())"
  using assms
  by (simp add: saveEventToDatabase_def nextOutcome_def recordFor_def Let_def split_beta)

lemma saveEventToDatabase_rejects:
  assumes "db m \<noteq> None" "eventsStore w = Some st" "writeOutcomes w = out # rest"
    "out \<noteq> WriteOk" "out \<noteq> CommitAborts"
  shows "\<exists>w' err. saveEventToDatabase w m e = (w', Inl err) \<and> eventsStore w' = Some st
           \<and> writeOutcomes w' = rest"
  using assms
  by (cases out)
     (auto simp: saveEventToDatabase_def nextOutcome_def Let_def split_beta eventsStore_def)

text \<open>
  A transaction that aborts at commit: the write reports success, nothing is stored and
  nothing is queued.
\<close>

lemma saveEvent_commit_aborts:
  assumes "isReady m" "db m \<noteq> None" "eventsStore w = Some st"
    "writeOutcomes w = CommitAborts # rest"
  shows "snd (saveEvent w m e) = m \<and> eventsStore (fst (saveEvent w m e)) = Some st"
  using assms
  by (auto simp: saveEvent_def saveEventToDatabase_def nextOutcome_def Let_def split_beta
      eventsStore_def)

lemma emitAll_rejected:
  "isReady m \<Longrightarrow> db m \<noteq> None \<Longrightarrow> eventsStore w = Some st \<Longrightarrow>
   writeOutcomes w = outs @ rest \<Longrightarrow> length outs = length es \<Longrightarrow> WriteOk \<notin> set outs \<Longrightarrow>
   CommitAborts \<notin> set outs \<Longrightarrow>
   \<exists>w'. emitAll w m es = (w', m\<lparr>eventQueue := eventQueue m @ es\<rparr>)
        \<and> eventsStore w' = Some st \<and> writeOutcomes w' = rest"
proof (induction es arbitrary: w m outs)
  case Nil
  then show ?case by simp
next
  case (Cons e es)
  from Cons.prems obtain out outs' where outs: "outs = out # outs'"
    by (cases outs) auto
  with Cons.prems have out: "out \<noteq> WriteOk" "out \<noteq> CommitAborts"
    and wo: "writeOutcomes w = out # (outs' @ rest)"
    by auto
  from saveEventToDatabase_rejects[OF Cons.prems(2) Cons.prems(3) wo out, of e]
  obtain w1 err where w1: "saveEventToDatabase w m e = (w1, Inl err)"
    "eventsStore w1 = Some st" "writeOutcomes w1 = outs' @ rest"
    by blast
  let ?m1 = "m\<lparr>eventQueue := eventQueue m @ [e]\<rparr>"
  have step: "saveEvent w m e = (w1, ?m1)"
    using Cons.prems(1,2) w1(1) by (auto simp: saveEvent_def)
  have "\<exists>w'. emitAll w1 ?m1 es = (w', ?m1\<lparr>eventQueue := eventQueue ?m1 @ es\<rparr>)
        \<and> eventsStore w' = Some st \<and> writeOutcomes w' = rest"
    using Cons.prems outs by (intro Cons.IH[OF _ _ w1(2) w1(3)]) auto
  then show ?case using step by auto
qed

lemma drainLoop_commits:
  "db m \<noteq> None \<Longrightarrow> eventsStore w = Some st \<Longrightarrow> writeOutcomes w = [] \<Longrightarrow>
   \<exists>w' st' rs. drainLoop w m es = (w', m) \<and> eventsStore w' = Some st'
        \<and> writeOutcomes w' = [] \<and> records st' = records st @ rs \<and> map data rs = es"
proof (induction es arbitrary: w st)
  case Nil
  then show ?case by simp
next
  case (Cons e es)
  let ?st1 = "store_add st (recordFor w e)"
  let ?w1 = "putEventsStore ?st1 (snd (getSessionId w))"
  have step: "saveEventToDatabase w m e = (?w1, Inr ())"
    using Cons.prems by (rule saveEventToDatabase_commits)
  have es1: "eventsStore ?w1 = Some ?st1"
    using Cons.prems(2) by (intro eventsStore_putEventsStore[where st = st]) simp
  have wo1: "writeOutcomes ?w1 = []" using Cons.prems(3) by simp
  from Cons.IH[OF Cons.prems(1) es1 wo1]
  obtain w' st' rs where r: "drainLoop ?w1 m es = (w', m)" "eventsStore w' = Some st'"
    "writeOutcomes w' = []" "records st' = records ?st1 @ rs" "map data rs = es"
    by blast
  obtain r1 where r1: "records ?st1 = records st @ [r1]" "data r1 = e"
    by (simp add: store_add_def Let_def recordFor_def)
  have "records st' = records st @ (r1 # rs)" "map data (r1 # rs) = e # es"
    using r(4,5) r1 by simp_all
  with r(1,2,3) step show ?case
    by (intro exI[of _ w'] exI[of _ st'] exI[of _ "r1 # rs"]) simp
qed

text \<open>
  When the write of the first event of a drain is rejected, that event alone returns to
  the queue; the events behind it in the copy are dropped, and the store is as before.
\<close>

lemma drainLoop_stops_at_rejection:
  assumes "db m \<noteq> None" "eventsStore w = Some st" "writeOutcomes w = out # rest"
    "out \<noteq> WriteOk" "out \<noteq> CommitAborts"
  shows "\<exists>w'. drainLoop w m (e # es) = (w', m\<lparr>eventQueue := eventQueue m @ [e]\<rparr>)
           \<and> eventsStore w' = Some st"
proof -
  from saveEventToDatabase_rejects[OF assms, of e]
  obtain w' err where "saveEventToDatabase w m e = (w', Inl err)" "eventsStore w' = Some st"
    by blast
  then show ?thesis by simp
qed

lemma initialize_newManager:
  "initialize DeleteSuccess OpenSuccess sampleWorld newManager =
     (sampleWorld\<lparr>database := Some [(''events'', createObjectStore)]\<rparr>,
      newManager\<lparr>db := Some openHandle, isReady := True\<rparr>, Inr ())"
  by (simp add: initialize_def initialize_start_def initialize_resume_def newManager_def
      deleteDatabase_def openDatabase_def eventsStore_def processEventQueue_def openHandle_def
      sampleWorld_def)

lemma processEventQueue_commits:
  assumes "db m \<noteq> None" "eventsStore w = Some st" "writeOutcomes w = []"
  shows "\<exists>w' st' rs. processEventQueue w m = (w', m\<lparr>eventQueue := []\<rparr>)
           \<and> eventsStore w' = Some st' \<and> writeOutcomes w' = []
           \<and> records st' = records st @ rs \<and> map data rs = eventQueue m"
proof (cases "eventQueue m = []")
  case True
  then have "m\<lparr>eventQueue := []\<rparr> = m" by simp
  with True assms show ?thesis by (simp add: processEventQueue_def)
next
  case False
  have "db (m\<lparr>eventQueue := []\<rparr>) \<noteq> None" using assms(1) by simp
  from drainLoop_commits[OF this assms(2,3), of "eventQueue m"] False
  show ?thesis by (simp add: processEventQueue_def)
qed

lemma writeOutcomes_deleteDatabase [simp]:
  "writeOutcomes (deleteDatabase dout w) = writeOutcomes w"
  by (cases dout) (simp_all add: deleteDatabase_def)

lemma openDatabase_success:
  assumes "openDatabase oout w = (w1, Inr h)"
  shows "h = openHandle" "eventsStore w1 \<noteq> None" "writeOutcomes w1 = writeOutcomes w"
  using assms
  by (cases oout; auto simp: openDatabase_def Let_def openHandle_def
        split: if_splits option.splits)+

text \<open>
  An initialization whose open succeeds, with every write committing: the manager is ready
  with its queue empty, and the store is the one the open found or created, followed by
  one record per queued event, in order.
\<close>

lemma initialize_drains:
  assumes "\<not> isReady m" "\<not> isInitializing m" "writeOutcomes w = []"
    "openDatabase oout (deleteDatabase dout w) = (w1, Inr h)"
  shows "\<exists>w' st0 st rs. initialize dout oout w m =
            (w', m\<lparr>db := Some h, isReady := True, eventQueue := []\<rparr>, Inr ())
           \<and> eventsStore w1 = Some st0 \<and> eventsStore w' = Some st \<and> writeOutcomes w' = []
           \<and> store_getAll st = store_getAll st0 @ rs \<and> map data rs = eventQueue m"
proof -
  let ?m1 = "m\<lparr>db := Some h, isReady := True\<rparr>"
  from openDatabase_success[OF assms(4)] assms(3)
  obtain st0 where st0: "eventsStore w1 = Some st0" and wo: "writeOutcomes w1 = []"
    by auto
  have "db ?m1 \<noteq> None" by simp
  from processEventQueue_commits[OF this st0 wo]
  obtain w' st rs where p: "processEventQueue w1 ?m1 = (w', ?m1\<lparr>eventQueue := []\<rparr>)"
    "eventsStore w' = Some st" "writeOutcomes w' = []"
    "records st = records st0 @ rs" "map data rs = eventQueue m"
    by auto
  have m1: "m\<lparr>db := Some h, isReady := True, isInitializing := False\<rparr> = ?m1"
    using assms(2) by simp
  have "initialize dout oout w m = (w', ?m1\<lparr>eventQueue := []\<rparr>, Inr ())"
    using assms(1,2)
    by (simp add: initialize_def initialize_start_def initialize_resume_def assms(4) m1 p(1))
  with p st0 show ?thesis by (auto simp: store_getAll_def)
qed

text \<open>With no arrivals the interleaved drain is the drain.\<close>

lemma drainLoopWith_no_arrivals: "drainLoopWith w m es [] = drainLoop w m es"
  by (induction es arbitrary: w) (auto split: prod.splits sum.splits)

lemma processEventQueueWith_no_arrivals:
  "processEventQueueWith [] w m = processEventQueue w m"
  by (simp add: processEventQueueWith_def processEventQueue_def drainLoopWith_no_arrivals)

lemma initializeWith_no_arrivals: "initializeWith [] dout oout w m = initialize dout oout w m"
  by (simp add: initializeWith_def initialize_def initialize_resume_def
      processEventQueueWith_no_arrivals split: Started.splits)

section \<open>The JSON round trip\<close>

lemma serialize_safe: "json_safe v \<Longrightarrow> serializeJSONProperty v = Doc (docOf v)"
proof (induction v)
  case (DArr xs)
  then have e: "map serializeJSONProperty xs = map (\<lambda>x. Doc (docOf x)) xs"
    by (auto simp: list_all_iff)
  show ?case by (auto simp: e Let_def comp_def)
next
  case (DObj kvs)
  then have e: "map (\<lambda>(k, v). (k, serializeJSONProperty v)) kvs
              = map (\<lambda>(k, v). (k, Doc (docOf v))) kvs"
    by (auto simp: list_all_iff intro!: map_cong)
  have c: "concat (map (\<lambda>(k, r). case r of Doc d \<Rightarrow> [(k, d)] | _ \<Rightarrow> [])
             (map (\<lambda>(k, v). (k, Doc (docOf v))) kvs)) = map (\<lambda>(k, v). (k, docOf v)) kvs"
    by (induction kvs) auto
  have "Throws \<notin> snd ` set (map (\<lambda>(k, v). (k, Doc (docOf v))) kvs)" by auto
  then show ?case by (simp only: serializeJSONProperty.simps Let_def e c if_False docOf.simps)
qed simp_all

lemma update_fresh: "k \<notin> fst ` set ps \<Longrightarrow> AList.update k v ps = ps @ [(k, v)]"
  by (induction ps) auto

lemma foldl_update_distinct:
  "distinct (map fst acc @ map fst kvs) \<Longrightarrow>
   foldl (\<lambda>props (k, d). AList.update k (f d) props) acc kvs = acc @ map (\<lambda>(k, d). (k, f d)) kvs"
proof (induction kvs arbitrary: acc)
  case Nil
  then show ?case by simp
next
  case (Cons kd kvs)
  obtain k d where kd: "kd = (k, d)" by (cases kd)
  have "k \<notin> fst ` set acc" using Cons.prems kd by auto
  then have u: "AList.update k (f d) acc = acc @ [(k, f d)]" by (rule update_fresh)
  have "distinct (map fst (acc @ [(k, f d)]) @ map fst kvs)" using Cons.prems kd by auto
  from Cons.IH[OF this] show ?case by (simp add: kd u)
qed

lemma parse_docOf: "json_safe v \<Longrightarrow> JSON_parse (docOf v) = v"
proof (induction v)
  case (DArr xs)
  then show ?case by (auto simp: list_all_iff intro: map_idI)
next
  case (DObj kvs)
  have d: "distinct (map fst ([] :: (string \<times> jsdata) list)
                       @ map fst (map (\<lambda>(k, v). (k, docOf v)) kvs))"
    using DObj.prems by (simp add: comp_def case_prod_beta)
  have "map (\<lambda>(k, d). (k, JSON_parse d)) (map (\<lambda>(k, v). (k, docOf v)) kvs) = kvs"
    using DObj by (auto simp: list_all_iff case_prod_beta intro!: map_idI)
  with foldl_update_distinct[OF d, of JSON_parse] show ?case by simp
qed simp_all

lemma JSON_round_trip:
  assumes "json_safe v"
  shows "JSON_stringify v = Some (docOf v)" "JSON_parse (docOf v) = v"
  using assms by (simp_all add: JSON_stringify_def serialize_safe parse_docOf)

text \<open>A BigInt or a cycle in a payload makes the serialization of the whole array throw.\<close>

lemma JSON_stringify_throws:
  assumes "ev_data e = DBigInt n \<or> ev_data e = DCyclic"
  shows "JSON_stringify (DArr (map eventValue (es @ e # es'))) = None"
proof -
  have "serializeJSONProperty (eventValue e) = Throws"
    using assms by (cases "ev_delay e") (auto simp: eventValue_def)
  then have "Throws \<in> set (map serializeJSONProperty (map eventValue (es @ e # es')))"
    by (simp add: image_iff)
  then show ?thesis by (simp add: JSON_stringify_def del: map_map map_append)
qed

lemma json_safe_eventValue: "json_safe (eventValue e) = json_safe (ev_data e)"
  by (cases "ev_delay e") (simp_all add: eventValue_def)

section \<open>The object store and its index\<close>

lemma store_consistent_create: "store_consistent createObjectStore"
  by (simp add: store_consistent_def createObjectStore_def)

lemma store_consistent_add:
  assumes "store_consistent st"
  shows "store_consistent (store_add st r)"
proof -
  have lt: "\<And>x. x \<in> set (records st) \<Longrightarrow> rid x < keyGenerator st"
    using assms by (simp add: store_consistent_def list_all_iff)
  have "keyGenerator st \<notin> rid ` set (records st)"
  proof
    assume "keyGenerator st \<in> rid ` set (records st)"
    then obtain x where "x \<in> set (records st)" "rid x = keyGenerator st" by auto
    with lt[of x] show False by simp
  qed
  moreover have "list_all (\<lambda>r. rid r < Suc (keyGenerator st)) (records st)"
    using lt by (auto simp: list_all_iff less_Suc_eq)
  ultimately show ?thesis
    using assms by (simp add: store_consistent_def store_add_def Let_def)
qed

lemma sessions_tagged_add:
  "sessions_tagged st \<Longrightarrow> sessions_tagged (store_add st (recordFor w e))"
  by (simp add: sessions_tagged_def store_add_def Let_def recordFor_def getSessionId_nonempty)

lemma find_by_key:
  "distinct (map f xs) \<Longrightarrow> x \<in> set xs \<Longrightarrow> find (\<lambda>y. f y = f x) xs = Some x"
  by (induction xs) (auto simp: image_iff)

lemma concat_map_singleton_if:
  "concat (map (\<lambda>r. if P r then [r] else []) xs) = filter P xs"
  by (induction xs) auto

lemma index_getAll_filter:
  assumes "store_consistent st"
  shows "index_getAll st (JStr sid) = filter (\<lambda>r. sessionId r = JStr sid) (records st)"
proof -
  let ?rs = "records st"
  let ?valid = "filter (\<lambda>r. idb_valid_key (sessionId r)) ?rs"
  have d: "distinct (map rid ?rs)" using assms by (simp add: store_consistent_def)
  have get: "\<And>r. r \<in> set ?valid \<Longrightarrow> store_get st (rid r) = [r]"
    using find_by_key[OF d] by (simp add: store_get_def)
  have "index_getAll st (JStr sid)
          = concat (map (\<lambda>r. if sessionId r = JStr sid then store_get st (rid r) else []) ?valid)"
    using assms by (simp add: index_getAll_def store_consistent_def comp_def)
  also have "\<dots> = concat (map (\<lambda>r. if sessionId r = JStr sid then [r] else []) ?valid)"
    using get by (intro arg_cong[where f = concat] map_cong) auto
  also have "\<dots> = filter (\<lambda>r. sessionId r = JStr sid) ?valid"
    by (rule concat_map_singleton_if)
  also have "\<dots> = filter (\<lambda>r. sessionId r = JStr sid) ?rs"
    by (auto intro: filter_cong)
  finally show ?thesis .
qed

lemma js_indexOf_notin: "x \<notin> set xs \<Longrightarrow> js_indexOf xs x = - 1"
  by (induction xs) (auto simp: Let_def)

lemma js_indexOf_in: "x \<in> set xs \<Longrightarrow> 0 \<le> js_indexOf xs x \<and> js_indexOf xs x < int (length xs)"
  by (induction xs) (auto simp: Let_def)

lemma js_indexOf_append_in: "x \<in> set xs \<Longrightarrow> js_indexOf (xs @ ys) x = js_indexOf xs x"
  by (induction xs) (auto simp: Let_def)

lemma js_indexOf_append_new: "x \<notin> set xs \<Longrightarrow> js_indexOf (xs @ [x]) x = int (length xs)"
  by (induction xs) (auto simp: Let_def)

lemma js_filter_indexed_snoc:
  "js_filter_indexed (\<lambda>v i arr. js_indexOf arr v = int i) (xs @ [x]) =
   js_filter_indexed (\<lambda>v i arr. js_indexOf arr v = int i) xs @ (if x \<in> set xs then [] else [x])"
proof -
  have old: "filter (\<lambda>(v, i). js_indexOf (xs @ [x]) v = int i) (zip xs [0..<length xs])
           = filter (\<lambda>(v, i). js_indexOf xs v = int i) (zip xs [0..<length xs])"
    by (rule filter_cong) (auto dest: set_zip_leftD simp: js_indexOf_append_in)
  have new: "js_indexOf (xs @ [x]) x = int (length xs) \<longleftrightarrow> x \<notin> set xs"
    using js_indexOf_in[of x xs] by (auto simp: js_indexOf_append_in js_indexOf_append_new)
  show ?thesis
    by (simp add: js_filter_indexed_def old new)
qed

lemma firstSeen_snoc:
  "firstSeen (xs @ [x]) = firstSeen xs @ (if x \<in> set xs then [] else [x])"
  by (induction xs rule: firstSeen.induct) auto

lemma js_filter_indexed_firstSeen:
  "js_filter_indexed (\<lambda>v i arr. js_indexOf arr v = int i) xs = firstSeen xs"
proof (induction xs rule: rev_induct)
  case Nil
  then show ?case by (simp add: js_filter_indexed_def)
next
  case (snoc x xs)
  then show ?case by (simp only: js_filter_indexed_snoc firstSeen_snoc)
qed

lemma set_firstSeen: "set (firstSeen xs) = set xs"
  by (induction xs rule: rev_induct) (auto simp: firstSeen_snoc)

lemma distinct_firstSeen: "distinct (firstSeen xs)"
  by (induction xs rule: rev_induct) (auto simp: firstSeen_snoc set_firstSeen)

lemma sessionIdsOf_firstSeen:
  "sessionIdsOf rs =
     firstSeen (filter (\<lambda>v. js_truthy v \<and> js_typeof v = ''string'') (map sessionId rs))"
  by (simp add: sessionIdsOf_def js_filter_indexed_firstSeen)

lemma truthy_string: "js_truthy v \<and> js_typeof v = ''string'' \<longleftrightarrow> (\<exists>s. v = JStr s \<and> s \<noteq> [])"
  by (cases v) auto

section \<open>Stores written by the manager stay consistent\<close>

lemma world_consistent_getSessionId:
  "world_consistent (snd (getSessionId w)) = world_consistent w"
  by (simp add: world_consistent_def)

lemma world_consistent_saveEventToDatabase:
  assumes "world_consistent w"
  shows "world_consistent (fst (saveEventToDatabase w m e))"
proof (cases "db m = None")
  case True
  then show ?thesis using assms by (simp add: saveEventToDatabase_def)
next
  case False
  show ?thesis
  proof (cases "eventsStore w")
    case None
    then show ?thesis using assms False by (simp add: saveEventToDatabase_def)
  next
    case (Some st)
    then have st: "store_consistent st" "sessions_tagged st"
      using assms by (simp_all add: world_consistent_def)
    obtain out w1 where n: "nextOutcome w = (out, w1)" by (cases "nextOutcome w")
    then have w1: "eventsStore w1 = Some st" "clock w1 = clock w"
      using Some by (auto simp: nextOutcome_def eventsStore_def split: list.splits)
    have c1: "world_consistent w1" using w1 st by (simp add: world_consistent_def)
    let ?r = "recordFor w1 e"
    have ok: "world_consistent (putEventsStore (store_add st ?r) (snd (getSessionId w1)))"
      using eventsStore_putEventsStore[of "snd (getSessionId w1)" st "store_add st ?r"] w1 st
      by (simp add: world_consistent_def store_consistent_add sessions_tagged_add)
    have c2: "world_consistent (snd (getSessionId w1))"
      using c1 by (simp add: world_consistent_getSessionId)
    show ?thesis
      using False Some n c1 c2 ok
      by (cases out)
         (auto simp: saveEventToDatabase_def Let_def split_beta recordFor_def)
  qed
qed

lemma world_consistent_saveEvent:
  "world_consistent w \<Longrightarrow> world_consistent (fst (saveEvent w m e))"
  using world_consistent_saveEventToDatabase[of w m e]
  by (auto simp: saveEvent_def Let_def split: prod.splits sum.splits)

lemma world_consistent_emitAll:
  "world_consistent w \<Longrightarrow> world_consistent (fst (emitAll w m es))"
proof (induction es arbitrary: w m)
  case Nil
  then show ?case by simp
next
  case (Cons e es)
  obtain w1 m1 where s: "saveEvent w m e = (w1, m1)" by (cases "saveEvent w m e")
  with world_consistent_saveEvent[OF Cons.prems, of m e] have "world_consistent w1" by simp
  from Cons.IH[OF this, of m1] s show ?case by simp
qed

lemma world_consistent_drainLoop:
  "world_consistent w \<Longrightarrow> world_consistent (fst (drainLoop w m es))"
proof (induction es arbitrary: w)
  case Nil
  then show ?case by simp
next
  case (Cons e es)
  obtain w1 r where s: "saveEventToDatabase w m e = (w1, r)"
    by (cases "saveEventToDatabase w m e")
  with world_consistent_saveEventToDatabase[OF Cons.prems, of m e]
  have c: "world_consistent w1" by simp
  show ?case using s c Cons.IH[OF c] by (cases r) simp_all
qed

lemma world_consistent_processEventQueue:
  "world_consistent w \<Longrightarrow> world_consistent (fst (processEventQueue w m))"
  by (simp add: processEventQueue_def world_consistent_drainLoop)

lemma world_consistent_deleteDatabase:
  "world_consistent w \<Longrightarrow> world_consistent (deleteDatabase dout w)"
  by (cases dout) (simp_all add: deleteDatabase_def world_consistent_def eventsStore_def)

lemma sessions_tagged_create: "sessions_tagged createObjectStore"
  by (simp add: sessions_tagged_def createObjectStore_def)

lemma world_consistent_openDatabase:
  "world_consistent w \<Longrightarrow> world_consistent (fst (openDatabase oout w))"
  by (cases oout)
     (auto simp: openDatabase_def world_consistent_def eventsStore_def Let_def
        store_consistent_create sessions_tagged_create
        split: option.splits)

lemma world_consistent_initialize:
  assumes "world_consistent w"
  shows "world_consistent (fst (initialize dout oout w m))"
proof -
  have "world_consistent (fst (initialize_resume dout oout w m'))" for m'
  proof -
    obtain w2 r where o: "openDatabase oout (deleteDatabase dout w) = (w2, r)"
      by (cases "openDatabase oout (deleteDatabase dout w)")
    with world_consistent_openDatabase[OF world_consistent_deleteDatabase[OF assms], of oout dout]
    have c: "world_consistent w2" by simp
    show ?thesis
      using o c world_consistent_processEventQueue[OF c]
      by (cases r) (simp_all add: initialize_resume_def split_beta Let_def)
  qed
  then show ?thesis
    using assms by (simp add: initialize_def split: Started.splits)
qed

lemma world_consistent_drainLoopWith:
  "world_consistent w \<Longrightarrow> world_consistent (fst (drainLoopWith w m es arrivals))"
proof (induction es arbitrary: w m arrivals)
  case Nil
  then show ?case by simp
next
  case (Cons e es)
  obtain w1 r where s: "saveEventToDatabase w m e = (w1, r)"
    by (cases "saveEventToDatabase w m e")
  with world_consistent_saveEventToDatabase[OF Cons.prems, of m e]
  have c1: "world_consistent w1" by simp
  obtain w2 m2 where a: "emitAll w1 m (case arrivals of [] \<Rightarrow> [] | a # later \<Rightarrow> a) = (w2, m2)"
    by (cases "emitAll w1 m (case arrivals of [] \<Rightarrow> [] | a # later \<Rightarrow> a)")
  with world_consistent_emitAll[OF c1, of m "case arrivals of [] \<Rightarrow> [] | a # later \<Rightarrow> a"]
  have c2: "world_consistent w2" by simp
  show ?case using s a c2 Cons.IH[OF c2] by (cases r) simp_all
qed

lemma world_consistent_initializeWith:
  assumes "world_consistent w"
  shows "world_consistent (fst (initializeWith arrivals dout oout w m))"
proof (cases "initialize_start m")
  case (Returned m')
  then show ?thesis using assms by (simp add: initializeWith_def)
next
  case (Awaiting m')
  obtain w2 r where o: "openDatabase oout (deleteDatabase dout w) = (w2, r)"
    by (cases "openDatabase oout (deleteDatabase dout w)")
  with world_consistent_openDatabase[OF world_consistent_deleteDatabase[OF assms], of oout dout]
  have c: "world_consistent w2" by simp
  have "world_consistent (fst (processEventQueueWith arrivals w2 m''))" for m''
    using c by (simp add: processEventQueueWith_def world_consistent_drainLoopWith)
  then show ?thesis
    using Awaiting o c by (cases r) (simp_all add: initializeWith_def split_beta Let_def)
qed

lemma world_consistent_clearDatabase:
  "world_consistent w \<Longrightarrow> world_consistent (fst (clearDatabase dout w m))"
  by (simp add: clearDatabase_def world_consistent_deleteDatabase)

lemma world_consistent_sampleWorld: "world_consistent sampleWorld"
  by (simp add: world_consistent_def sampleWorld_def eventsStore_def)

section \<open>Sample stores\<close>

lemma eventsStore_readyWorld: "eventsStore readyWorld = Some createObjectStore"
  by (simp add: readyWorld_def eventsStore_def)

lemma world_consistent_readyWorld: "world_consistent readyWorld"
  by (simp add: world_consistent_def eventsStore_readyWorld store_consistent_create
      sessions_tagged_create)

lemma eventsStore_twoSessionWorld: "eventsStore twoSessionWorld = Some twoSessionStore"
  by (simp add: twoSessionWorld_def eventsStore_def)

lemma records_twoSessionStore:
  "records twoSessionStore =
     [\<lparr>rid = 1, data = sampleEvent 1, timestamp = 10, sessionId = JStr ''s1''\<rparr>,
      \<lparr>rid = 2, data = sampleEvent 2, timestamp = 11, sessionId = JStr ''s2''\<rparr>,
      \<lparr>rid = 3, data = sampleEvent 3, timestamp = 12, sessionId = JStr ''s1''\<rparr>]"
  by (simp add: twoSessionStore_def store_add_def createObjectStore_def Let_def)

lemma world_consistent_twoSessionWorld: "world_consistent twoSessionWorld"
  by (simp add: world_consistent_def eventsStore_twoSessionWorld twoSessionStore_def
      store_consistent_add store_consistent_create sessions_tagged_def)
     (simp add: store_add_def createObjectStore_def Let_def)

lemma readyManager_flags: "isReady readyManager" "db readyManager \<noteq> None"
  by (simp_all add: readyManager_def newManager_def)

lemma eventsStore_mixedWorld: "eventsStore mixedWorld = Some mixedStore"
  by (simp add: mixedWorld_def eventsStore_def)

lemma sessions_of_mixedStore:
  "map sessionId (records mixedStore) =
     [JNull, JStr ''s1'', JNum 7, JStr [], JStr ''s2'', JUndefined, JStr ''s1'']"
  by (simp add: mixedStore_def store_add_def createObjectStore_def Let_def)

lemma eventsStore_richWorld: "eventsStore richWorld = Some richStore"
  by (simp add: richWorld_def eventsStore_def)

lemma records_richStore:
  "records richStore =
     [\<lparr>rid = 1, data = richEvent, timestamp = 10, sessionId = JStr ''s1''\<rparr>,
      \<lparr>rid = 2, data = sampleEvent 2, timestamp = 11, sessionId = JStr ''s2''\<rparr>,
      \<lparr>rid = 3, data = sampleEvent 3, timestamp = 12, sessionId = JStr ''s1''\<rparr>]"
  by (simp add: richStore_def store_add_def createObjectStore_def Let_def)

lemma world_consistent_richWorld: "world_consistent richWorld"
  by (simp add: world_consistent_def eventsStore_richWorld richStore_def
      store_consistent_add store_consistent_create sessions_tagged_def)
     (simp add: store_add_def createObjectStore_def Let_def)


section \<open>The claims\<close>

text \<open>
  C1 (a failed drain keeps the failed event and every event after it queued, in order).
  Three events are queued while not ready; \<open>initialize\<close> then drains them, the first write
  commits and the second is rejected. Afterwards the store holds the first event and the
  queue holds only the second: the third is neither stored nor queued.
\<close>

theorem drain_loses_events_after_first_failure:
  "eventQueue (fst (snd (initialize DeleteSuccess OpenSuccess
      (sampleWorld\<lparr>writeOutcomes := [WriteOk, RequestError]\<rparr>)
      (snd (emitAll sampleWorld newManager [sampleEvent 1, sampleEvent 2, sampleEvent 3])))))
     = [sampleEvent 2]
   \<and> map_option (map data \<circ> store_getAll) (eventsStore (fst (initialize DeleteSuccess OpenSuccess
      (sampleWorld\<lparr>writeOutcomes := [WriteOk, RequestError]\<rparr>)
      (snd (emitAll sampleWorld newManager [sampleEvent 1, sampleEvent 2, sampleEvent 3])))))
     = Some [sampleEvent 1]"
  by code_simp

text \<open>
  C2 (a further \<open>initialize()\<close> while initializing or ready changes nothing and returns
  only once the in-flight initialization has settled). The second half fails: the guard
  returns at once. The first call on the new manager is suspended at the deletion with
  \<open>isInitializing\<close> set; a second call in that state returns immediately, the manager
  still initializing and not ready.
\<close>

theorem initialize_returns_while_initialization_in_flight:
  "initialize_start newManager = Awaiting inFlightManager
   \<and> initialize_start inFlightManager = Returned inFlightManager
   \<and> initialize DeleteSuccess OpenSuccess sampleWorld inFlightManager
       = (sampleWorld, inFlightManager, Inr ())
   \<and> isInitializing inFlightManager \<and> \<not> isReady inFlightManager"
  by (simp add: initialize_def initialize_start_def inFlightManager_def newManager_def)

text \<open>
  C2, as the code has it: for every manager state that is ready or initializing, a further
  \<open>initialize()\<close> returns at once from its guard, without waiting for anything, and changes
  neither the manager nor the browser's state.
\<close>

theorem initialize_guard_returns_at_once:
  assumes "isReady m \<or> isInitializing m"
  shows "initialize_start m = Returned m \<and> initialize dout oout w m = (w, m, Inr ())"
  using assms by (simp add: initialize_def initialize_start_def)

theorem initialize_guard_returns_at_once_witness:
  "initialize_start inFlightManager = Returned inFlightManager
   \<and> initialize DeleteError OpenError sampleWorld inFlightManager
       = (sampleWorld, inFlightManager, Inr ())
   \<and> initialize_start readyManager = Returned readyManager
   \<and> initialize DeleteSuccess OpenSuccess readyWorld readyManager
       = (readyWorld, readyManager, Inr ())"
  using initialize_guard_returns_at_once[of inFlightManager DeleteError OpenError sampleWorld]
    initialize_guard_returns_at_once[of readyManager DeleteSuccess OpenSuccess readyWorld]
  by (simp add: inFlightManager_def readyManager_def newManager_def)

text \<open>
  C3 (the queue never holds more than 1000 entries after an operation). The bound is
  enforced where \<open>saveEvent\<close> queues an event while not ready; the push that follows a
  rejected write while ready has no such check. From the new manager, a successful
  \<open>initialize\<close> followed by 1001 events whose writes the backend rejects leaves 1001
  entries in the queue, with \<open>maxQueueSize\<close> still 1000.
\<close>

theorem queue_exceeds_bound_after_rejected_writes:
  "length (eventQueue (snd (emitAll
      ((fst (initialize DeleteSuccess OpenSuccess sampleWorld newManager))
         \<lparr>writeOutcomes := replicate 1001 RequestError\<rparr>)
      (fst (snd (initialize DeleteSuccess OpenSuccess sampleWorld newManager)))
      (map sampleEvent [0..<1001])))) = 1001
   \<and> maxQueueSize (snd (emitAll
      ((fst (initialize DeleteSuccess OpenSuccess sampleWorld newManager))
         \<lparr>writeOutcomes := replicate 1001 RequestError\<rparr>)
      (fst (snd (initialize DeleteSuccess OpenSuccess sampleWorld newManager)))
      (map sampleEvent [0..<1001]))) = 1000"
proof -
  let ?w = "sampleWorld\<lparr>database := Some [(''events'', createObjectStore)],
                writeOutcomes := replicate 1001 RequestError\<rparr>"
  let ?m = "newManager\<lparr>db := Some openHandle, isReady := True\<rparr>"
  have "\<exists>w'. emitAll ?w ?m (map sampleEvent [0..<1001])
          = (w', ?m\<lparr>eventQueue := eventQueue ?m @ map sampleEvent [0..<1001]\<rparr>)
        \<and> eventsStore w' = Some createObjectStore \<and> writeOutcomes w' = []"
    by (rule emitAll_rejected[where outs = "replicate 1001 RequestError"])
       (simp_all add: newManager_def eventsStore_def)
  then show ?thesis
    unfolding initialize_newManager fst_conv snd_conv by (auto simp: newManager_def)
qed

text \<open>
  C4 (enqueueing \<open>c + k\<close> events while not ready keeps exactly the last \<open>c\<close>, and a successful
  drain writes exactly those). The capacity of the manager is the private field
  \<open>maxQueueSize\<close>, set to 1000 and never assigned; the statement is proved for every
  positive value of the field. Enqueueing \<open>c + k\<close> events while not ready leaves exactly
  the last \<open>c\<close> of them queued, in order, whatever was queued before, and touches nothing
  else. Whatever the answer to the deletion, when the open of a following initialization
  succeeds and every write commits, the initialization succeeds with the queue empty, and
  the store is the one the open found or created followed by one record for each of
  those \<open>c\<close> events, in their order.
\<close>

theorem bounded_enqueue_then_drain:
  assumes "0 < maxQueueSize m" "\<not> isReady m" "\<not> isInitializing m"
    "length es = maxQueueSize m + k" "writeOutcomes w = []"
    "openDatabase oout (deleteDatabase dout w) = (w1, Inr h)"
  shows "emitAll w m es = (w, m\<lparr>eventQueue := drop k es\<rparr>)
    \<and> keepLast (maxQueueSize m) es = drop k es
    \<and> (\<exists>w' st0 st rs. initialize dout oout w (snd (emitAll w m es)) =
            (w', m\<lparr>db := Some h, isReady := True, eventQueue := []\<rparr>, Inr ())
          \<and> eventsStore w1 = Some st0 \<and> eventsStore w' = Some st
          \<and> store_getAll st = store_getAll st0 @ rs \<and> map data rs = drop k es)"
proof -
  have es: "es \<noteq> []" using assms(1,4) by auto
  have q: "keepLast (maxQueueSize m) (eventQueue m @ es) = drop k es"
    using assms(4) by (simp add: keepLast_def)
  have e: "emitAll w m es = (w, m\<lparr>eventQueue := drop k es\<rparr>)"
    using emitAll_not_ready[of m w es] assms(1,2) es q by simp
  let ?m' = "m\<lparr>eventQueue := drop k es\<rparr>"
  have "\<not> isReady ?m'" "\<not> isInitializing ?m'" using assms(2,3) by simp_all
  from initialize_drains[OF this assms(5,6)]
  obtain w' st0 st rs where "initialize dout oout w ?m' =
            (w', ?m'\<lparr>db := Some h, isReady := True, eventQueue := []\<rparr>, Inr ())"
    "eventsStore w1 = Some st0" "eventsStore w' = Some st"
    "store_getAll st = store_getAll st0 @ rs" "map data rs = eventQueue ?m'"
    by blast
  then show ?thesis using e assms(4) by (auto simp: keepLast_def)
qed

theorem bounded_enqueue_then_drain_witness:
  "(emitAll sampleWorld newManager manyEvents
       = (sampleWorld, newManager\<lparr>eventQueue := drop 1 manyEvents\<rparr>)
    \<and> keepLast (maxQueueSize newManager) manyEvents = drop 1 manyEvents
    \<and> (\<exists>w' st0 st rs. initialize DeleteSuccess OpenSuccess sampleWorld
            (snd (emitAll sampleWorld newManager manyEvents)) =
            (w', newManager\<lparr>db := Some openHandle, isReady := True, eventQueue := []\<rparr>, Inr ())
          \<and> eventsStore readyWorld = Some st0 \<and> eventsStore w' = Some st
          \<and> store_getAll st = store_getAll st0 @ rs \<and> map data rs = drop 1 manyEvents))
   \<and> (emitAll twoSessionWorld newManager manyEvents
       = (twoSessionWorld, newManager\<lparr>eventQueue := drop 1 manyEvents\<rparr>)
    \<and> keepLast (maxQueueSize newManager) manyEvents = drop 1 manyEvents
    \<and> (\<exists>w' st0 st rs. initialize DeleteError OpenSuccess twoSessionWorld
            (snd (emitAll twoSessionWorld newManager manyEvents)) =
            (w', newManager\<lparr>db := Some openHandle, isReady := True, eventQueue := []\<rparr>, Inr ())
          \<and> eventsStore twoSessionWorld = Some st0 \<and> eventsStore w' = Some st
          \<and> store_getAll st = store_getAll st0 @ rs \<and> map data rs = drop 1 manyEvents))"
proof (rule conjI)
  show "emitAll sampleWorld newManager manyEvents
       = (sampleWorld, newManager\<lparr>eventQueue := drop 1 manyEvents\<rparr>)
    \<and> keepLast (maxQueueSize newManager) manyEvents = drop 1 manyEvents
    \<and> (\<exists>w' st0 st rs. initialize DeleteSuccess OpenSuccess sampleWorld
            (snd (emitAll sampleWorld newManager manyEvents)) =
            (w', newManager\<lparr>db := Some openHandle, isReady := True, eventQueue := []\<rparr>, Inr ())
          \<and> eventsStore readyWorld = Some st0 \<and> eventsStore w' = Some st
          \<and> store_getAll st = store_getAll st0 @ rs \<and> map data rs = drop 1 manyEvents)"
    by (rule bounded_enqueue_then_drain[where dout = DeleteSuccess and oout = OpenSuccess])
       (simp_all add: newManager_def manyEvents_def sampleWorld_def readyWorld_def
          openDatabase_def deleteDatabase_def eventsStore_def openHandle_def)
next
  show "emitAll twoSessionWorld newManager manyEvents
       = (twoSessionWorld, newManager\<lparr>eventQueue := drop 1 manyEvents\<rparr>)
    \<and> keepLast (maxQueueSize newManager) manyEvents = drop 1 manyEvents
    \<and> (\<exists>w' st0 st rs. initialize DeleteError OpenSuccess twoSessionWorld
            (snd (emitAll twoSessionWorld newManager manyEvents)) =
            (w', newManager\<lparr>db := Some openHandle, isReady := True, eventQueue := []\<rparr>, Inr ())
          \<and> eventsStore twoSessionWorld = Some st0 \<and> eventsStore w' = Some st
          \<and> store_getAll st = store_getAll st0 @ rs \<and> map data rs = drop 1 manyEvents)"
    by (rule bounded_enqueue_then_drain[where dout = DeleteError and oout = OpenSuccess])
       (simp_all add: newManager_def manyEvents_def sampleWorld_def twoSessionWorld_def
          openDatabase_def deleteDatabase_def eventsStore_def openHandle_def)
qed

text \<open>
  C5 (every event saved after \<open>clear()\<close> and before a re-initialization completes is
  queued and later drained, never lost). The first half holds on this run: after the
  clear the manager is not ready and not initializing, has no handle and an empty queue,
  and the three events saved afterwards are queued in order with nothing written. The
  new initialization then drains them; its first write commits and its second is
  rejected. It succeeds, the store holds the first event and the queue only the second:
  the third event, saved after the clear, is neither stored nor queued.
\<close>

theorem event_saved_after_clear_lost_by_failed_drain:
  "\<not> isReady (snd clearedRun) \<and> \<not> isInitializing (snd clearedRun)
   \<and> db (snd clearedRun) = None \<and> eventQueue (snd clearedRun) = []
   \<and> fst savedAfterClear = fst clearedRun
   \<and> eventQueue (snd savedAfterClear) = [sampleEvent 1, sampleEvent 2, sampleEvent 3]
   \<and> snd (snd reinitializedRun) = Inr ()
   \<and> isReady (fst (snd reinitializedRun))
   \<and> eventQueue (fst (snd reinitializedRun)) = [sampleEvent 2]
   \<and> map_option (map data \<circ> store_getAll) (eventsStore (fst reinitializedRun))
       = Some [sampleEvent 1]"
  by code_simp

text \<open>
  C6 (parsing an export gives back the payloads stored for the session, field for field,
  in capture order). Two runs refute it. A stored event whose payload holds NaN is
  exported with \<open>null\<close> in its place, so the parsed array differs from the stored payload.
  And of three events captured in the order 1, 2, 3, the third while the drain of the
  first two awaits its first write, the store and the export hold 1, 3, 2.
\<close>

theorem export_differs_from_captured_payloads:
  "map data (store_getAll nanStore) = [nanEvent]
   \<and> map JSON_parse (downloads (snd (snd
        (exportSession DownloadStarts ReadSuccess nanWorld readyManager ''s1''))))
       = [DArr [eventValue (nanEvent\<lparr>ev_data := DObj [(''x'', DNull)]\<rparr>)]]
   \<and> map JSON_parse (downloads (snd (snd
        (exportSession DownloadStarts ReadSuccess nanWorld readyManager ''s1''))))
       \<noteq> [DArr (map eventValue [nanEvent])]
   \<and> map_option (map data \<circ> store_getAll) (eventsStore (fst raceRun))
       = Some [sampleEvent 1, sampleEvent 3, sampleEvent 2]
   \<and> map JSON_parse (downloads (snd (snd
        (exportSession DownloadStarts ReadSuccess (fst raceRun) (fst (snd raceRun))
           ''session-1700-k3x''))))
       = [DArr (map eventValue [sampleEvent 1, sampleEvent 3, sampleEvent 2])]
   \<and> map JSON_parse (downloads (snd (snd
        (exportSession DownloadStarts ReadSuccess (fst raceRun) (fst (snd raceRun))
           ''session-1700-k3x''))))
       \<noteq> [DArr (map eventValue [sampleEvent 1, sampleEvent 2, sampleEvent 3])]"
  by code_simp

text \<open>
  C6, as the code has it: for a ready manager over a store written by the manager, and a
  session with at least one record whose payloads are all values JSON can carry, an
  export whose read and download succeed changes nothing and offers one download, named
  after the session and the date. Parsing its document gives the array of the events of
  exactly the records of that session, without \<open>id\<close>, \<open>timestamp\<close> and \<open>sessionId\<close>, equal
  field for field to what is stored, in store order (ascending \<open>id\<close>).
\<close>

theorem exportSession_round_trip:
  assumes "isReady m" "db m \<noteq> None" "world_consistent w" "eventsStore w = Some st"
    "filter (\<lambda>r. sessionId r = JStr sid) (store_getAll st) \<noteq> []"
    "list_all (\<lambda>r. json_safe (ev_data (data r)))
       (filter (\<lambda>r. sessionId r = JStr sid) (store_getAll st))"
  shows "\<exists>doc. exportSession DownloadStarts ReadSuccess w m sid =
            (w, m, [Download (''rrweb-session-'' @ take 15 sid @ ''-'' @ isoDate w @ ''.json'') doc])
          \<and> JSON_parse doc
              = DArr (map eventValue
                  (map data (filter (\<lambda>r. sessionId r = JStr sid) (store_getAll st))))"
proof -
  let ?rs = "filter (\<lambda>r. sessionId r = JStr sid) (store_getAll st)"
  let ?arr = "DArr (map eventValue (map data ?rs))"
  have "store_consistent st" using assms(3,4) by (simp add: world_consistent_def)
  then have g: "getEventsBySession ReadSuccess w m sid = Inr ?rs"
    using assms(1,2,4) by (simp add: getEventsBySession_def index_getAll_filter store_getAll_def)
  have "json_safe ?arr"
    using assms(6) by (simp add: list_all_iff json_safe_eventValue)
  then have j: "JSON_stringify ?arr = Some (docOf ?arr)" "JSON_parse (docOf ?arr) = ?arr"
    by (rule JSON_round_trip)+
  have "exportSession DownloadStarts ReadSuccess w m sid =
          (w, m, [Download (''rrweb-session-'' @ take 15 sid @ ''-'' @ isoDate w @ ''.json'')
                    (docOf ?arr)])"
    using assms(5)
    by (simp add: exportSession_def g j(1) Let_def del: map_map docOf.simps)
  with j(2) show ?thesis by blast
qed

theorem exportSession_round_trip_witness:
  "\<exists>doc. exportSession DownloadStarts ReadSuccess richWorld readyManager ''s1'' =
            (richWorld, readyManager,
             [Download (''rrweb-session-'' @ take 15 ''s1'' @ ''-'' @ isoDate richWorld
                          @ ''.json'') doc])
          \<and> JSON_parse doc
              = DArr (map eventValue
                  (map data (filter (\<lambda>r. sessionId r = JStr ''s1'') (store_getAll richStore))))"
  by (rule exportSession_round_trip)
     (simp_all add: readyManager_flags world_consistent_richWorld eventsStore_richWorld
        store_getAll_def records_richStore richEvent_def sampleEvent_def)

text \<open>
  C7 (\<open>getEventsBySession(s)\<close> is the part of \<open>getAllEvents()\<close> whose \<open>sessionId\<close> is \<open>s\<close>,
  in the same order). Over every store written by the manager the two queries fail
  together, with the same error, or both succeed, and then the records the index returns
  for \<open>s\<close> are exactly the records of the full listing tagged \<open>s\<close>, in the listing's order.
\<close>

theorem getEventsBySession_filters_getAllEvents:
  assumes "world_consistent w"
  shows "getEventsBySession rd w m sid =
           (case getAllEvents rd w m of
              Inl err \<Rightarrow> Inl err
            | Inr all \<Rightarrow> Inr (filter (\<lambda>r. sessionId r = JStr sid) all))"
proof (cases "eventsStore w")
  case None
  then show ?thesis by (simp add: getEventsBySession_def getAllEvents_def)
next
  case (Some st)
  then have "store_consistent st" using assms by (simp add: world_consistent_def)
  then have "index_getAll st (JStr sid) = filter (\<lambda>r. sessionId r = JStr sid) (store_getAll st)"
    by (simp add: index_getAll_filter store_getAll_def)
  then show ?thesis
    using Some by (cases rd) (simp_all add: getEventsBySession_def getAllEvents_def)
qed

theorem getEventsBySession_filters_getAllEvents_witness:
  "getEventsBySession ReadSuccess twoSessionWorld readyManager ''s1'' =
           (case getAllEvents ReadSuccess twoSessionWorld readyManager of
              Inl err \<Rightarrow> Inl err
            | Inr all \<Rightarrow> Inr (filter (\<lambda>r. sessionId r = JStr ''s1'') all))
   \<and> getAllEvents ReadSuccess twoSessionWorld readyManager = Inr (records twoSessionStore)
   \<and> map rid (filter (\<lambda>r. sessionId r = JStr ''s1'') (records twoSessionStore)) = [1, 3]"
  using getEventsBySession_filters_getAllEvents[OF world_consistent_twoSessionWorld, of ReadSuccess readyManager "''s1''"]
  by (simp add: getAllEvents_def readyManager_flags eventsStore_twoSessionWorld
      store_getAll_def records_twoSessionStore)

text \<open>
  C8 (\<open>getAllSessions()\<close> lists each session id once, in order of first appearance). For
  a ready manager over a store written by the manager, whatever the interleaving of the
  sessions, the result is computed from the records read: it is their \<open>sessionId\<close> fields
  reduced to first appearances, it has no duplicates, and it contains exactly the session
  ids that occur in some record.
\<close>

theorem getAllSessions_first_seen_order:
  assumes "isReady m" "db m \<noteq> None" "world_consistent w" "eventsStore w = Some st"
  shows "getAllSessions ReadSuccess w m = Inr (firstSeen (map sessionId (store_getAll st)))
       \<and> distinct (firstSeen (map sessionId (store_getAll st)))
       \<and> set (firstSeen (map sessionId (store_getAll st))) = sessionId ` set (store_getAll st)"
proof -
  have "list_all (\<lambda>v. js_truthy v \<and> js_typeof v = ''string'') (map sessionId (records st))"
    using assms(3,4) by (simp add: world_consistent_def sessions_tagged_def list_all_iff)
  then have "filter (\<lambda>v. js_truthy v \<and> js_typeof v = ''string'') (map sessionId (records st))
               = map sessionId (records st)"
    by (simp add: list_all_iff)
  then have "sessionIdsOf (store_getAll st) = firstSeen (map sessionId (store_getAll st))"
    by (simp add: sessionIdsOf_firstSeen store_getAll_def)
  then show ?thesis
    using assms(1,2,4) by (simp add: getAllSessions_def distinct_firstSeen set_firstSeen)
qed

theorem getAllSessions_first_seen_order_witness:
  "getAllSessions ReadSuccess twoSessionWorld readyManager
       = Inr (firstSeen (map sessionId (store_getAll twoSessionStore)))
   \<and> distinct (firstSeen (map sessionId (store_getAll twoSessionStore)))
   \<and> set (firstSeen (map sessionId (store_getAll twoSessionStore)))
       = sessionId ` set (store_getAll twoSessionStore)
   \<and> firstSeen (map sessionId (store_getAll twoSessionStore)) = [JStr ''s1'', JStr ''s2'']"
  using getAllSessions_first_seen_order[OF readyManager_flags world_consistent_twoSessionWorld eventsStore_twoSessionWorld]
  by (simp add: store_getAll_def records_twoSessionStore)

text \<open>
  C9 (\<open>exportSession\<close> for a session without records). When no record of the store is
  tagged with the session id -- also when the store is empty or does not exist -- the
  call does not throw: it changes neither the manager nor the browser's state, offers no
  download and shows exactly one alert. On a ready manager whose read succeeds the alert
  says that no events were found for the session; otherwise it reports the failed export.
\<close>

theorem exportSession_without_records_alerts:
  assumes "world_consistent w"
    "filter (\<lambda>r. sessionId r = JStr sid)
       (case eventsStore w of None \<Rightarrow> [] | Some st \<Rightarrow> store_getAll st) = []"
  shows "exportSession dl rd w m sid =
           (w, m, [Alert (if isReady m \<and> db m \<noteq> None \<and> eventsStore w \<noteq> None \<and> rd = ReadSuccess
                          then ''No events found for this session''
                          else ''Failed to export session. Check console for details.'')])"
proof (cases "eventsStore w")
  case None
  then show ?thesis by (simp add: exportSession_def getEventsBySession_def)
next
  case (Some st)
  then have "store_consistent st" using assms(1) by (simp add: world_consistent_def)
  then have "index_getAll st (JStr sid) = []"
    using assms(2) Some by (simp add: index_getAll_filter store_getAll_def)
  then show ?thesis
    using Some by (cases rd) (simp_all add: exportSession_def getEventsBySession_def)
qed

theorem exportSession_without_records_alerts_witness:
  "exportSession DownloadStarts ReadSuccess readyWorld readyManager ''missing'' =
     (readyWorld, readyManager, [Alert ''No events found for this session''])"
  using exportSession_without_records_alerts[OF world_consistent_readyWorld, of "''missing''"
      DownloadStarts ReadSuccess readyManager]
  by (simp add: eventsStore_readyWorld readyManager_flags store_getAll_def
      createObjectStore_def)

text \<open>
  C10 (\<open>getAllSessions()\<close> leaves out records whose \<open>sessionId\<close> is absent, null or not a
  string). Whatever the store holds, every id returned is a non-empty string that is the
  \<open>sessionId\<close> of some record read; and the ids computed from a list of records are the
  ids computed from its records with a string \<open>sessionId\<close> alone, so the other records
  contribute nothing.
\<close>

theorem getAllSessions_only_nonempty_strings:
  "(getAllSessions rd w m = Inr ids \<longrightarrow>
      (\<forall>v \<in> set ids. \<exists>s. v = JStr s \<and> s \<noteq> []
          \<and> (\<exists>st. eventsStore w = Some st \<and> v \<in> sessionId ` set (store_getAll st))))
   \<and> sessionIdsOf rs = sessionIdsOf (filter (\<lambda>r. js_typeof (sessionId r) = ''string'') rs)"
proof
  show "getAllSessions rd w m = Inr ids \<longrightarrow>
      (\<forall>v \<in> set ids. \<exists>s. v = JStr s \<and> s \<noteq> []
          \<and> (\<exists>st. eventsStore w = Some st \<and> v \<in> sessionId ` set (store_getAll st)))"
  proof (intro impI ballI)
    fix v
    assume g: "getAllSessions rd w m = Inr ids" and v: "v \<in> set ids"
    from g obtain st where st: "eventsStore w = Some st" "ids = sessionIdsOf (store_getAll st)"
      by (cases rd) (auto simp: getAllSessions_def split: if_splits option.splits)
    from v st(2) have "v \<in> sessionId ` set (store_getAll st)"
      and "js_truthy v \<and> js_typeof v = ''string''"
      by (auto simp: sessionIdsOf_firstSeen set_firstSeen)
    with st(1) show "\<exists>s. v = JStr s \<and> s \<noteq> []
          \<and> (\<exists>st. eventsStore w = Some st \<and> v \<in> sessionId ` set (store_getAll st))"
      by (auto simp: truthy_string)
  qed
next
  have "filter (\<lambda>v. js_truthy v \<and> js_typeof v = ''string'') (map sessionId rs)
      = filter (\<lambda>v. js_truthy v \<and> js_typeof v = ''string'')
          (map sessionId (filter (\<lambda>r. js_typeof (sessionId r) = ''string'') rs))"
    by (induction rs) auto
  then show "sessionIdsOf rs
      = sessionIdsOf (filter (\<lambda>r. js_typeof (sessionId r) = ''string'') rs)"
    by (simp only: sessionIdsOf_firstSeen)
qed

theorem getAllSessions_only_nonempty_strings_witness:
  "getAllSessions ReadSuccess mixedWorld readyManager = Inr [JStr ''s1'', JStr ''s2'']
   \<and> (\<exists>s. JStr ''s2'' = JStr s \<and> s \<noteq> []
        \<and> (\<exists>st. eventsStore mixedWorld = Some st
              \<and> JStr ''s2'' \<in> sessionId ` set (store_getAll st)))
   \<and> sessionIdsOf (records mixedStore)
        = sessionIdsOf (filter (\<lambda>r. js_typeof (sessionId r) = ''string'') (records mixedStore))"
proof -
  have g: "getAllSessions ReadSuccess mixedWorld readyManager = Inr [JStr ''s1'', JStr ''s2'']"
    by (simp add: getAllSessions_def readyManager_flags eventsStore_mixedWorld
        sessionIdsOf_firstSeen store_getAll_def sessions_of_mixedStore)
  note t = getAllSessions_only_nonempty_strings[of ReadSuccess mixedWorld readyManager "[JStr ''s1'', JStr ''s2'']"
      "records mixedStore"]
  from t g have "\<exists>s. JStr ''s2'' = JStr s \<and> s \<noteq> []
        \<and> (\<exists>st. eventsStore mixedWorld = Some st
              \<and> JStr ''s2'' \<in> sessionId ` set (store_getAll st))"
    by simp
  with g t show ?thesis by blast
qed

end
